theory Spec2Isabelle
  imports Main "HOL-Library.AList"
begin

section \<open>The plan document of \<open>mod.ts\<close>\<close>

text \<open>
  Function objects (hooks, test functions) are values of a type variable \<open>'f\<close>: the builder
  never calls them, it only stores the reference it was given. A slot typed
  \<open>Function | null\<close> is an \<open>'f option\<close>.

  \<open>IPlan.suites\<close> is a JavaScript object used as a dictionary from suite names to suite
  records. It is an association list here, in insertion order: assigning to a key that is
  present replaces the value where it stands, assigning to a new key appends
  (\<open>AList.update\<close>); reading a key that is absent gives \<open>undefined\<close> (\<open>map_of\<close> gives
  \<open>None\<close>). The field \<open>cases\<close> is declared optional in \<open>IPlan\<close>, so it is an option.
  The order of the list is the order in which the keys were first assigned. It is not
  always the order in which JavaScript lists the keys of the object: that order is
  \<open>suite_entries\<close> below. Names are strings over the characters of HOL; \<open>length\<close> is
  their \<open>.length\<close>.
\<close>

record 'f case_record =
  name :: string
  new_name :: string
  testFn :: 'f

record 'f suite_record =
  cases :: "'f case_record list option"
  after_all_case_hook :: "'f option"
  after_each_case_hook :: "'f option"
  before_all_case_hook :: "'f option"
  before_each_case_hook :: "'f option"

record 'f IPlan =
  suites :: "(string \<times> 'f suite_record) list"
  after_all_suite_hook :: "'f option"
  after_each_suite_hook :: "'f option"
  before_all_suite_hook :: "'f option"
  before_each_suite_hook :: "'f option"

text \<open>The state of a \<open>RhumRunner\<close>: the four cursor strings and the plan document.\<close>

record 'f RhumRunner =
  passed_in_test_plan :: string
  passed_in_test_suite :: string
  test_plan_in_progress :: string
  test_suite_in_progress :: string
  plan :: "'f IPlan"

text \<open>The field initialisers of the class.\<close>

definition empty_plan :: "'f IPlan" where
  "empty_plan = \<lparr> suites = [], after_all_suite_hook = None, after_each_suite_hook = None,
      before_all_suite_hook = None, before_each_suite_hook = None \<rparr>"

definition new_runner :: "'f RhumRunner" where
  "new_runner = \<lparr> passed_in_test_plan = [], passed_in_test_suite = [],
      test_plan_in_progress = [], test_suite_in_progress = [], plan = empty_plan \<rparr>"

text \<open>
  Reading a property of \<open>undefined\<close> throws a \<open>TypeError\<close>. A call that throws returns
  \<open>Inl\<close> with the error and the state the runner was left in; a call that returns gives
  \<open>Inr\<close> with the new state.
\<close>

datatype error = TypeError

type_synonym 'f outcome = "(error \<times> 'f RhumRunner) + 'f RhumRunner"

type_synonym 'f body = "'f RhumRunner \<Rightarrow> 'f outcome"

definition final_state :: "'f outcome \<Rightarrow> 'f RhumRunner" where
  "final_state r = (case r of Inl (e, s) \<Rightarrow> s | Inr s \<Rightarrow> s)"

definition raised :: "'f outcome \<Rightarrow> bool" where
  "raised r = (case r of Inl x \<Rightarrow> True | Inr s \<Rightarrow> False)"

section \<open>The display name of a test case\<close>

definition extraChars :: nat where
  "extraChars = 10"

text \<open>\<open>String.prototype.repeat\<close>.\<close>

definition repeat :: "string \<Rightarrow> nat \<Rightarrow> string" where
  "repeat s n = concat (replicate n s)"

definition backspace :: string where
  "backspace = [CHR 0x08]"

definition newline :: string where
  "newline = [CHR 0x0A]"

text \<open>The three template strings of \<open>formatTestCaseName\<close>, in the order of its branches.\<close>

definition plan_suite_case_name :: "string \<Rightarrow> string \<Rightarrow> string \<Rightarrow> string" where
  "plan_suite_case_name p su n =
     repeat backspace (length n + extraChars) @
     repeat '' '' (length n + extraChars) @
     newline @ p @
     newline @ ''    '' @ su @
     newline @ ''        '' @ n @ '' ... ''"

definition suite_case_name :: "string \<Rightarrow> string \<Rightarrow> string" where
  "suite_case_name su n =
     repeat backspace (length n + extraChars) @
     ''    '' @ su @
     repeat '' '' (length n + extraChars) @
     newline @ ''        '' @ n @ '' ... ''"

definition case_name :: "string \<Rightarrow> string" where
  "case_name n =
     repeat backspace (length n + extraChars) @
     ''        '' @ n @ '' ... ''"

definition formatTestCaseName :: "string \<Rightarrow> 'f RhumRunner \<Rightarrow> string \<times> 'f RhumRunner" where
  "formatTestCaseName n s =
     (if test_plan_in_progress s \<noteq> passed_in_test_plan s then
        (let s1 = s\<lparr>test_plan_in_progress := passed_in_test_plan s\<rparr>;
             s2 = s1\<lparr>test_suite_in_progress := passed_in_test_suite s1\<rparr>
         in (plan_suite_case_name (passed_in_test_plan s2) (passed_in_test_suite s2) n, s2))
      else if test_suite_in_progress s \<noteq> passed_in_test_suite s then
        (let s1 = s\<lparr>test_suite_in_progress := passed_in_test_suite s\<rparr>
         in (suite_case_name (passed_in_test_suite s1) n, s1))
      else (case_name n, s))"

section \<open>The registration methods\<close>

text \<open>
  A non-empty string is truthy, the empty string is falsy. Each hook method has two
  guarded branches and no \<open>else\<close>: with no plan name set it does nothing. In the first
  branch the suite record is looked up and its slot assigned; a missing record throws.
\<close>

definition set_suite :: "string \<Rightarrow> 'f suite_record \<Rightarrow> 'f RhumRunner \<Rightarrow> 'f RhumRunner" where
  "set_suite k su s = s\<lparr>plan := (plan s)\<lparr>suites := AList.update k su (suites (plan s))\<rparr>\<rparr>"

definition beforeEach :: "'f \<Rightarrow> 'f RhumRunner \<Rightarrow> 'f outcome" where
  "beforeEach cb s =
     (if passed_in_test_plan s \<noteq> [] \<and> passed_in_test_suite s \<noteq> [] then
        (case map_of (suites (plan s)) (passed_in_test_suite s) of
           None \<Rightarrow> Inl (TypeError, s)
         | Some su \<Rightarrow>
             Inr (set_suite (passed_in_test_suite s) (su\<lparr>before_each_case_hook := Some cb\<rparr>) s))
      else if passed_in_test_plan s \<noteq> [] \<and> \<not> passed_in_test_suite s \<noteq> [] then
        Inr (s\<lparr>plan := (plan s)\<lparr>before_each_suite_hook := Some cb\<rparr>\<rparr>)
      else Inr s)"

definition afterEach :: "'f \<Rightarrow> 'f RhumRunner \<Rightarrow> 'f outcome" where
  "afterEach cb s =
     (if passed_in_test_plan s \<noteq> [] \<and> passed_in_test_suite s \<noteq> [] then
        (case map_of (suites (plan s)) (passed_in_test_suite s) of
           None \<Rightarrow> Inl (TypeError, s)
         | Some su \<Rightarrow>
             Inr (set_suite (passed_in_test_suite s) (su\<lparr>after_each_case_hook := Some cb\<rparr>) s))
      else if passed_in_test_plan s \<noteq> [] \<and> \<not> passed_in_test_suite s \<noteq> [] then
        Inr (s\<lparr>plan := (plan s)\<lparr>after_each_suite_hook := Some cb\<rparr>\<rparr>)
      else Inr s)"

definition afterAll :: "'f \<Rightarrow> 'f RhumRunner \<Rightarrow> 'f outcome" where
  "afterAll cb s =
     (if passed_in_test_plan s \<noteq> [] \<and> passed_in_test_suite s \<noteq> [] then
        (case map_of (suites (plan s)) (passed_in_test_suite s) of
           None \<Rightarrow> Inl (TypeError, s)
         | Some su \<Rightarrow>
             Inr (set_suite (passed_in_test_suite s) (su\<lparr>after_all_case_hook := Some cb\<rparr>) s))
      else if passed_in_test_plan s \<noteq> [] \<and> \<not> passed_in_test_suite s \<noteq> [] then
        Inr (s\<lparr>plan := (plan s)\<lparr>after_all_suite_hook := Some cb\<rparr>\<rparr>)
      else Inr s)"

definition beforeAll :: "'f \<Rightarrow> 'f RhumRunner \<Rightarrow> 'f outcome" where
  "beforeAll cb s =
     (if passed_in_test_plan s \<noteq> [] \<and> passed_in_test_suite s \<noteq> [] then
        (case map_of (suites (plan s)) (passed_in_test_suite s) of
           None \<Rightarrow> Inl (TypeError, s)
         | Some su \<Rightarrow>
             Inr (set_suite (passed_in_test_suite s) (su\<lparr>before_all_case_hook := Some cb\<rparr>) s))
      else if passed_in_test_plan s \<noteq> [] \<and> \<not> passed_in_test_suite s \<noteq> [] then
        Inr (s\<lparr>plan := (plan s)\<lparr>before_all_suite_hook := Some cb\<rparr>\<rparr>)
      else Inr s)"

text \<open>\<open>only\<close> and \<open>skip\<close> have empty bodies.\<close>

definition only :: "'f \<Rightarrow> 'f RhumRunner \<Rightarrow> 'f outcome" where
  "only cb s = Inr s"

definition skip :: "string \<Rightarrow> 'f \<Rightarrow> 'f RhumRunner \<Rightarrow> 'f outcome" where
  "skip n cb s = Inr s"

text \<open>
  \<open>testCase\<close> evaluates \<open>this.plan.suites[this.passed_in_test_suite].cases.push\<close> before the
  argument of the call: a missing record, or a record without \<open>cases\<close>, throws before
  \<open>formatTestCaseName\<close> has touched the cursor. Otherwise the name is formatted and the new
  case is pushed onto the array of that record.
\<close>

definition testCase :: "string \<Rightarrow> 'f \<Rightarrow> 'f RhumRunner \<Rightarrow> 'f outcome" where
  "testCase n fn s =
     (case map_of (suites (plan s)) (passed_in_test_suite s) of
        None \<Rightarrow> Inl (TypeError, s)
      | Some su \<Rightarrow>
          (case cases su of
             None \<Rightarrow> Inl (TypeError, s)
           | Some cs \<Rightarrow>
               (let (nn, s1) = formatTestCaseName n s
                in Inr (set_suite (passed_in_test_suite s)
                     (su\<lparr>cases := Some (cs @ [\<lparr>name = n, new_name = nn, testFn = fn\<rparr>])\<rparr>) s1))))"

text \<open>
  The bodies handed to \<open>testPlan\<close> and \<open>testSuite\<close> are called synchronously on the runner
  as the method has left it; what they throw is not caught.
\<close>

definition testPlan :: "string \<Rightarrow> 'f body \<Rightarrow> 'f RhumRunner \<Rightarrow> 'f outcome" where
  "testPlan n testSuites s =
     (let s1 = s\<lparr>passed_in_test_suite := []\<rparr>;
          s2 = s1\<lparr>passed_in_test_plan := n\<rparr>
      in testSuites s2)"

definition fresh_suite :: "'f suite_record" where
  "fresh_suite = \<lparr> cases = Some [], after_all_case_hook = None, after_each_case_hook = None,
      before_all_case_hook = None, before_each_case_hook = None \<rparr>"

definition testSuite :: "string \<Rightarrow> 'f body \<Rightarrow> 'f RhumRunner \<Rightarrow> 'f outcome" where
  "testSuite n testCases s =
     (let s1 = s\<lparr>passed_in_test_suite := n\<rparr>;
          s2 = set_suite n fresh_suite s1
      in testCases s2)"

section \<open>Programs of registration calls\<close>

text \<open>
  A test file is a sequence of calls on the one runner, the bodies of \<open>testPlan\<close> and
  \<open>testSuite\<close> being sequences of calls themselves. A sequence stops at the first call
  that throws.
\<close>

datatype 'f call =
    TestPlan string "'f call list"
  | TestSuite string "'f call list"
  | TestCase string 'f
  | BeforeEach 'f
  | AfterEach 'f
  | AfterAll 'f
  | BeforeAll 'f
  | Only 'f
  | Skip string 'f

fun exec :: "'f call \<Rightarrow> 'f RhumRunner \<Rightarrow> 'f outcome"
  and exec_all :: "'f call list \<Rightarrow> 'f RhumRunner \<Rightarrow> 'f outcome" where
  "exec (TestPlan n b) s = testPlan n (\<lambda>t. exec_all b t) s"
| "exec (TestSuite n b) s = testSuite n (\<lambda>t. exec_all b t) s"
| "exec (TestCase n fn) s = testCase n fn s"
| "exec (BeforeEach cb) s = beforeEach cb s"
| "exec (AfterEach cb) s = afterEach cb s"
| "exec (AfterAll cb) s = afterAll cb s"
| "exec (BeforeAll cb) s = beforeAll cb s"
| "exec (Only cb) s = only cb s"
| "exec (Skip n cb) s = skip n cb s"
| "exec_all [] s = Inr s"
| "exec_all (c # cs) s = (case exec c s of Inl x \<Rightarrow> Inl x | Inr s' \<Rightarrow> exec_all cs s')"


text \<open>
  The suite named by the cursor has a record, and the record has its \<open>cases\<close> array:
  what \<open>testCase\<close> and the first branch of the hook methods dereference.
\<close>

definition suite_scope_ok :: "'f RhumRunner \<Rightarrow> bool" where
  "suite_scope_ok s =
     (passed_in_test_suite s \<noteq> [] \<longrightarrow>
        (case map_of (suites (plan s)) (passed_in_test_suite s) of
           None \<Rightarrow> False
         | Some su \<Rightarrow> cases su \<noteq> None))"

text \<open>The test functions registered under a suite name, in the order of the case list.\<close>

definition testFns_of :: "'f RhumRunner \<Rightarrow> string \<Rightarrow> 'f list option" where
  "testFns_of s k =
     (case map_of (suites (plan s)) k of
        None \<Rightarrow> None
      | Some su \<Rightarrow> map_option (map testFn) (cases su))"

text \<open>The hook a suite record holds in a slot; \<open>None\<close> also when the name has no record.\<close>

definition suite_slot :: "('f suite_record \<Rightarrow> 'f option) \<Rightarrow> 'f RhumRunner \<Rightarrow> string \<Rightarrow> 'f option" where
  "suite_slot h s k = (case map_of (suites (plan s)) k of None \<Rightarrow> None | Some su \<Rightarrow> h su)"


text \<open>
  The test file \<open>testPlan(p, () => { testSuite(n, () => { cs }); h })\<close>: the call \<open>h\<close> is
  made in the body of the plan after the body of the suite has returned.
\<close>

definition after_suite :: "string \<Rightarrow> string \<Rightarrow> 'f call list \<Rightarrow> 'f call \<Rightarrow> 'f RhumRunner \<Rightarrow> 'f outcome" where
  "after_suite p n cs h s = exec (TestPlan p [TestSuite n cs, h]) s"


section \<open>Sequences of display names\<close>

text \<open>
  A registration is the plan name and suite name the cursor holds when \<open>testCase\<close> is
  called (put there by \<open>testPlan\<close> and \<open>testSuite\<close>), and the case name. \<open>display_names\<close>
  gives the strings \<open>formatTestCaseName\<close> returns over a sequence of registrations.
\<close>

type_synonym registration = "string \<times> string \<times> string"

fun display_names :: "registration list \<Rightarrow> 'f RhumRunner \<Rightarrow> string list" where
  "display_names [] s = []"
| "display_names ((p, su, n) # rs) s =
     (let (out, s') = formatTestCaseName n (s\<lparr>passed_in_test_suite := su, passed_in_test_plan := p\<rparr>)
      in out # display_names rs s')"

text \<open>
  The registrations whose display name carries the plan line, and those whose display
  name carries the suite line (the first template has both lines, the second the suite
  line only).
\<close>

definition plan_headers :: "registration list \<Rightarrow> string list \<Rightarrow> registration list" where
  "plan_headers regs outs =
     map fst (filter (\<lambda>((p, su, n), out). out = plan_suite_case_name p su n) (zip regs outs))"

definition suite_headers :: "registration list \<Rightarrow> string list \<Rightarrow> registration list" where
  "suite_headers regs outs =
     map fst (filter (\<lambda>((p, su, n), out).
        out = plan_suite_case_name p su n \<or> out = suite_case_name su n) (zip regs outs))"

text \<open>
  The registrations whose plan name is not the plan name of the registration before
  (\<open>p0\<close> before the first), and those whose plan name or suite name is not that of the
  registration before (\<open>p0\<close> and \<open>su0\<close> before the first).
\<close>

fun plan_changes :: "string \<Rightarrow> registration list \<Rightarrow> registration list" where
  "plan_changes p0 [] = []"
| "plan_changes p0 ((p, su, n) # rs) =
     (if p = p0 then [] else [(p, su, n)]) @ plan_changes p rs"

fun suite_changes :: "string \<Rightarrow> string \<Rightarrow> registration list \<Rightarrow> registration list" where
  "suite_changes p0 su0 [] = []"
| "suite_changes p0 su0 ((p, su, n) # rs) =
     (if p = p0 \<and> su = su0 then [] else [(p, su, n)]) @ suite_changes p su rs"

text \<open>The display names stored under a suite name, in the order of the case list.\<close>

definition new_names_of :: "'f RhumRunner \<Rightarrow> string \<Rightarrow> string list option" where
  "new_names_of s k =
     (case map_of (suites (plan s)) k of
        None \<Rightarrow> None
      | Some su \<Rightarrow> map_option (map new_name) (cases su))"

section \<open>The keys of the suites object, as JavaScript lists them\<close>

text \<open>
  An array index is the decimal numeral, without leading zero, of a number below
  \<open>2^32 - 1\<close>. The own keys of an object are listed with the array indices first, in
  ascending numeric order, and then the other names in the order in which they were
  first assigned. Assigning to \<open>__proto__\<close> creates no key of the object (it replaces the
  prototype, and reading \<open>__proto__\<close> gives the assigned record back), so this name is
  looked up like the others and never listed.
\<close>

definition is_digit :: "char \<Rightarrow> bool" where
  "is_digit c = (c \<in> set ''0123456789'')"

definition decimal_value :: "string \<Rightarrow> nat" where
  "decimal_value k = foldl (\<lambda>v c. 10 * v + (of_char c - 48)) 0 k"

definition is_array_index :: "string \<Rightarrow> bool" where
  "is_array_index k =
     (k \<noteq> [] \<and> list_all is_digit k \<and>
      (if hd k = CHR ''0'' then k = ''0'' else True) \<and>
      decimal_value k < 4294967295)"

definition listed_last :: "string \<Rightarrow> bool" where
  "listed_last k = (\<not> is_array_index k \<and> k \<noteq> ''__proto__'')"

definition suite_entries :: "(string \<times> 'a) list \<Rightarrow> (string \<times> 'a) list" where
  "suite_entries ss =
     sort_key (\<lambda>(k, su). decimal_value k) (filter (\<lambda>(k, su). is_array_index k) ss) @
     filter (\<lambda>(k, su). listed_last k) ss"

text \<open>
  The names of the suites a call declares, in the order of the \<open>testSuite\<close> calls it makes,
  and the place a declared name takes in a list of keys: none when it is there already,
  the last otherwise.
\<close>

fun declared :: "'f call \<Rightarrow> string list"
  and declared_all :: "'f call list \<Rightarrow> string list" where
  "declared (TestPlan n b) = declared_all b"
| "declared (TestSuite n b) = n # declared_all b"
| "declared (TestCase n fn) = []"
| "declared (BeforeEach cb) = []"
| "declared (AfterEach cb) = []"
| "declared (AfterAll cb) = []"
| "declared (BeforeAll cb) = []"
| "declared (Only cb) = []"
| "declared (Skip n cb) = []"
| "declared_all [] = []"
| "declared_all (c # cs) = declared c @ declared_all cs"

definition declare_name :: "string \<Rightarrow> string list \<Rightarrow> string list" where
  "declare_name k ks = (if k \<in> set ks then ks else ks @ [k])"

section \<open>Running the plan\<close>

text \<open>
  Modelled from the spec: the class \<open>TestCase\<close> of \<open>src/test_case.ts\<close>, which \<open>mod.ts\<close>
  imports and \<open>run\<close> instantiates, is not among the sources. Whether calling a function
  object throws is the parameter \<open>throws\<close>; the trace is the list of functions called so
  far, in order. \<open>run_hook\<close> runs a hook slot: an unset slot is skipped, a set one is
  called. \<open>Inl\<close> is a failure, with the trace up to and including the call that threw.
\<close>

definition run_hook :: "('f \<Rightarrow> bool) \<Rightarrow> 'f option \<Rightarrow> 'f list \<Rightarrow> 'f list + 'f list" where
  "run_hook throws h tr =
     (case h of
        None \<Rightarrow> Inr tr
      | Some f \<Rightarrow> if throws f then Inl (tr @ [f]) else Inr (tr @ [f]))"

text \<open>
  Modelled from the spec: the wrapped function \<open>TestCase\<close> hands to the host runner for
  one case (section 4.2): the suite's before-each hook, the test function, the suite's
  after-each hook, in this order. A failure of any of the three fails this case at the
  host runner and goes no further, so the result is the trace alone.
\<close>

definition run_case :: "('f \<Rightarrow> bool) \<Rightarrow> 'f suite_record \<Rightarrow> 'f case_record \<Rightarrow> 'f list \<Rightarrow> 'f list" where
  "run_case throws su c tr =
     (case run_hook throws (before_each_case_hook su) tr of
        Inl tr1 \<Rightarrow> tr1
      | Inr tr1 \<Rightarrow>
          (case run_hook throws (Some (testFn c)) tr1 of
             Inl tr2 \<Rightarrow> tr2
           | Inr tr2 \<Rightarrow>
               (case run_hook throws (after_each_case_hook su) tr2 of
                  Inl tr3 \<Rightarrow> tr3
                | Inr tr3 \<Rightarrow> tr3)))"

text \<open>Modelled from the spec: the loop of \<open>TestCase\<close> over the cases of a suite, in order.\<close>

fun run_cases :: "('f \<Rightarrow> bool) \<Rightarrow> 'f suite_record \<Rightarrow> 'f case_record list \<Rightarrow> 'f list \<Rightarrow> 'f list" where
  "run_cases throws su [] tr = tr"
| "run_cases throws su (c # cs) tr = run_cases throws su cs (run_case throws su c tr)"

text \<open>Modelled from the spec: the case list of a suite record, empty when \<open>cases\<close> is not set.\<close>

definition cases_of :: "'f suite_record \<Rightarrow> 'f case_record list" where
  "cases_of su = (case cases su of None \<Rightarrow> [] | Some cs \<Rightarrow> cs)"

text \<open>
  Modelled from the spec: one suite iteration of \<open>TestCase\<close> (rows 2 to 6 of the ordering
  table of section 4.2). A plan-level or suite-level hook that throws is not caught.
\<close>

definition run_suite :: "('f \<Rightarrow> bool) \<Rightarrow> 'f IPlan \<Rightarrow> 'f suite_record \<Rightarrow> 'f list \<Rightarrow> 'f list + 'f list" where
  "run_suite throws pl su tr =
     (case run_hook throws (before_each_suite_hook pl) tr of
        Inl tr1 \<Rightarrow> Inl tr1
      | Inr tr1 \<Rightarrow>
          (case run_hook throws (before_all_case_hook su) tr1 of
             Inl tr2 \<Rightarrow> Inl tr2
           | Inr tr2 \<Rightarrow>
               (case run_hook throws (after_all_case_hook su)
                       (run_cases throws su (cases_of su) tr2) of
                  Inl tr3 \<Rightarrow> Inl tr3
                | Inr tr3 \<Rightarrow> run_hook throws (after_each_suite_hook pl) tr3)))"

text \<open>
  Modelled from the spec: the loop of \<open>TestCase\<close> over the suites it is given, in the
  order given.
\<close>

fun run_suites :: "('f \<Rightarrow> bool) \<Rightarrow> 'f IPlan \<Rightarrow> (string \<times> 'f suite_record) list \<Rightarrow> 'f list \<Rightarrow> 'f list + 'f list" where
  "run_suites throws pl [] tr = Inr tr"
| "run_suites throws pl ((n, su) # rest) tr =
     (case run_suite throws pl su tr of
        Inl tr1 \<Rightarrow> Inl tr1
      | Inr tr1 \<Rightarrow> run_suites throws pl rest tr1)"

text \<open>
  Modelled from the spec: \<open>TestCase.run\<close> on the plan document its constructor was given:
  the plan's before-all hook, the suites, the plan's after-all hook. The document is the
  object \<open>mod.ts\<close> built, so its suites come in the order the object lists its keys.
\<close>

definition TestCase_run :: "('f \<Rightarrow> bool) \<Rightarrow> 'f IPlan \<Rightarrow> 'f list + 'f list" where
  "TestCase_run throws pl =
     (case run_hook throws (before_all_suite_hook pl) [] of
        Inl tr1 \<Rightarrow> Inl tr1
      | Inr tr1 \<Rightarrow>
          (case run_suites throws pl (suite_entries (suites pl)) tr1 of
             Inl tr2 \<Rightarrow> Inl tr2
           | Inr tr2 \<Rightarrow> run_hook throws (after_all_suite_hook pl) tr2))"

text \<open>\<open>RhumRunner.run\<close>: a new \<open>TestCase\<close> on \<open>this.plan\<close>, and its \<open>run\<close>.\<close>

definition run :: "('f \<Rightarrow> bool) \<Rightarrow> 'f RhumRunner \<Rightarrow> 'f list + 'f list" where
  "run throws s = TestCase_run throws (plan s)"

text \<open>
  The order of the hook slots and test functions as the specification lists it, slot by
  slot, the suites in the order in which their names were first registered and the cases
  in the order of the case list; \<open>called_in_order\<close> keeps the functions of the slots that
  are set.
\<close>

definition case_slots :: "'f suite_record \<Rightarrow> 'f case_record \<Rightarrow> 'f option list" where
  "case_slots su c = [before_each_case_hook su, Some (testFn c), after_each_case_hook su]"

definition suite_slots :: "'f IPlan \<Rightarrow> 'f suite_record \<Rightarrow> 'f option list" where
  "suite_slots pl su =
     [before_each_suite_hook pl, before_all_case_hook su] @
     concat (map (case_slots su) (cases_of su)) @
     [after_all_case_hook su, after_each_suite_hook pl]"

definition plan_slots :: "'f IPlan \<Rightarrow> 'f option list" where
  "plan_slots pl =
     [before_all_suite_hook pl] @
     concat (map (\<lambda>(n, su). suite_slots pl su) (suites pl)) @
     [after_all_suite_hook pl]"

definition called_in_order :: "'f option list \<Rightarrow> 'f list" where
  "called_in_order slots = concat (map (\<lambda>h. case h of None \<Rightarrow> [] | Some f \<Rightarrow> [f]) slots)"

text \<open>Function objects none of which throws.\<close>

definition no_throw :: "'f \<Rightarrow> bool" where
  "no_throw f = False"

text \<open>Function objects of which one throws.\<close>

definition throws_only :: "'f \<Rightarrow> 'f \<Rightarrow> bool" where
  "throws_only g f = (f = g)"

section \<open>Basic facts\<close>

lemmas method_defs = testPlan_def testSuite_def testCase_def beforeAll_def beforeEach_def
  afterEach_def afterAll_def only_def skip_def set_suite_def formatTestCaseName_def Let_def
  new_runner_def empty_plan_def fresh_suite_def final_state_def raised_def testFns_of_def
  suite_slot_def after_suite_def new_names_of_def

lemma map_of_set_suite:
  "map_of (suites (plan (set_suite k su s))) k' =
     (if k' = k then Some su else map_of (suites (plan s)) k')"
  by (simp add: set_suite_def update_conv')

lemma keys_set_suite_present:
  "map_of (suites (plan s)) k = Some su0 \<Longrightarrow>
     map fst (suites (plan (set_suite k su s))) = map fst (suites (plan s))"
  by (simp add: set_suite_def update_keys map_of_eq_None_iff[symmetric] del: map_of_eq_None_iff)

lemma set_suite_cursor:
  "passed_in_test_plan (set_suite k su s) = passed_in_test_plan s"
  "passed_in_test_suite (set_suite k su s) = passed_in_test_suite s"
  "test_plan_in_progress (set_suite k su s) = test_plan_in_progress s"
  "test_suite_in_progress (set_suite k su s) = test_suite_in_progress s"
  by (simp_all add: set_suite_def)


lemma set_suite_twice: "set_suite k su2 (set_suite k su1 s) = set_suite k su2 s"
  by (simp add: set_suite_def)


lemma formatTestCaseName_frame:
  "plan (snd (formatTestCaseName n s)) = plan s"
  "passed_in_test_plan (snd (formatTestCaseName n s)) = passed_in_test_plan s"
  "passed_in_test_suite (snd (formatTestCaseName n s)) = passed_in_test_suite s"
  by (simp_all add: formatTestCaseName_def Let_def)

lemma formatTestCaseName_in_progress:
  "test_plan_in_progress (snd (formatTestCaseName n s)) = passed_in_test_plan s"
  "test_suite_in_progress (snd (formatTestCaseName n s)) = passed_in_test_suite s"
  by (simp_all add: formatTestCaseName_def Let_def)

lemma testCase_pushes:
  assumes "map_of (suites (plan s)) (passed_in_test_suite s) = Some su" and "cases su = Some cs"
  shows "testCase n fn s =
     Inr (set_suite (passed_in_test_suite s)
       (su\<lparr>cases := Some (cs @ [\<lparr>name = n, new_name = fst (formatTestCaseName n s), testFn = fn\<rparr>])\<rparr>)
       (snd (formatTestCaseName n s)))"
  using assms by (simp add: testCase_def split_beta)


lemma hooks_plan_scope:
  assumes "passed_in_test_plan s \<noteq> []" and "passed_in_test_suite s = []"
  shows "beforeEach cb s = Inr (s\<lparr>plan := (plan s)\<lparr>before_each_suite_hook := Some cb\<rparr>\<rparr>)"
    and "afterEach cb s = Inr (s\<lparr>plan := (plan s)\<lparr>after_each_suite_hook := Some cb\<rparr>\<rparr>)"
    and "afterAll cb s = Inr (s\<lparr>plan := (plan s)\<lparr>after_all_suite_hook := Some cb\<rparr>\<rparr>)"
    and "beforeAll cb s = Inr (s\<lparr>plan := (plan s)\<lparr>before_all_suite_hook := Some cb\<rparr>\<rparr>)"
  using assms by (simp_all add: beforeEach_def afterEach_def afterAll_def beforeAll_def)

lemma hooks_suite_scope:
  assumes "passed_in_test_plan s \<noteq> []" and "passed_in_test_suite s \<noteq> []"
    and "map_of (suites (plan s)) (passed_in_test_suite s) = Some su"
  shows "beforeEach cb s =
           Inr (set_suite (passed_in_test_suite s) (su\<lparr>before_each_case_hook := Some cb\<rparr>) s)"
    and "afterEach cb s =
           Inr (set_suite (passed_in_test_suite s) (su\<lparr>after_each_case_hook := Some cb\<rparr>) s)"
    and "afterAll cb s =
           Inr (set_suite (passed_in_test_suite s) (su\<lparr>after_all_case_hook := Some cb\<rparr>) s)"
    and "beforeAll cb s =
           Inr (set_suite (passed_in_test_suite s) (su\<lparr>before_all_case_hook := Some cb\<rparr>) s)"
  using assms by (simp_all add: beforeEach_def afterEach_def afterAll_def beforeAll_def)

section \<open>The suite named by the cursor has a record\<close>

lemma suite_scope_ok_set_suite:
  "cases su \<noteq> None \<Longrightarrow> passed_in_test_suite s = k \<Longrightarrow> suite_scope_ok (set_suite k su s)"
  by (simp add: suite_scope_ok_def map_of_set_suite set_suite_cursor)

lemma suite_scope_ok_testCase:
  assumes "suite_scope_ok s"
  shows "suite_scope_ok (final_state (testCase n fn s))"
proof (cases "map_of (suites (plan s)) (passed_in_test_suite s)")
  case None
  then show ?thesis using assms by (simp add: testCase_def final_state_def)
next
  case (Some su)
  show ?thesis
  proof (cases "cases su")
    case None
    then show ?thesis using assms Some by (simp add: testCase_def final_state_def)
  next
    case (Some cs)
    then show ?thesis using \<open>map_of _ _ = Some su\<close>
      by (simp add: testCase_pushes final_state_def suite_scope_ok_set_suite
          formatTestCaseName_frame)
  qed
qed

lemma suite_scope_ok_hooks:
  assumes "suite_scope_ok s"
  shows "suite_scope_ok (final_state (beforeEach cb s))"
    and "suite_scope_ok (final_state (afterEach cb s))"
    and "suite_scope_ok (final_state (afterAll cb s))"
    and "suite_scope_ok (final_state (beforeAll cb s))"
  using assms
  by (auto simp add: beforeEach_def afterEach_def afterAll_def beforeAll_def final_state_def
      suite_scope_ok_def map_of_set_suite set_suite_cursor split: option.splits)

lemma suite_scope_ok_testPlan:
  assumes "\<And>t. suite_scope_ok t \<Longrightarrow> suite_scope_ok (final_state (b t))"
  shows "suite_scope_ok (final_state (testPlan n b s))"
proof -
  have "suite_scope_ok (s\<lparr>passed_in_test_suite := [], passed_in_test_plan := n\<rparr>)"
    by (simp add: suite_scope_ok_def)
  then show ?thesis by (simp add: testPlan_def Let_def assms)
qed

lemma suite_scope_ok_testSuite:
  assumes "\<And>t. suite_scope_ok t \<Longrightarrow> suite_scope_ok (final_state (b t))"
  shows "suite_scope_ok (final_state (testSuite n b s))"
  by (simp add: testSuite_def Let_def assms suite_scope_ok_set_suite fresh_suite_def)

lemma suite_scope_ok_exec:
  "suite_scope_ok s \<Longrightarrow> suite_scope_ok (final_state (exec c s))"
  "suite_scope_ok s \<Longrightarrow> suite_scope_ok (final_state (exec_all cs s))"
proof (induction c s and cs s rule: exec_exec_all.induct)
  case (1 n b s)
  then show ?case by (simp add: suite_scope_ok_testPlan)
next
  case (2 n b s)
  then show ?case by (simp add: suite_scope_ok_testSuite)
next
  case (11 c cs s)
  show ?case
  proof (cases "exec c s")
    case (Inl x)
    then show ?thesis using 11(1)[OF 11(3)] by (simp add: final_state_def)
  next
    case (Inr s')
    then show ?thesis using 11(1)[OF 11(3)] 11(2)[OF Inr] by (simp add: final_state_def)
  qed
qed (simp_all add: suite_scope_ok_testCase suite_scope_ok_hooks only_def skip_def,
     simp_all add: final_state_def)

lemma hooks_in_suite_scope_return:
  assumes "suite_scope_ok s" and "passed_in_test_suite s \<noteq> []"
  shows "\<not> raised (beforeEach cb s)" and "\<not> raised (afterEach cb s)"
    and "\<not> raised (afterAll cb s)" and "\<not> raised (beforeAll cb s)"
  using assms
  by (auto simp add: beforeEach_def afterEach_def afterAll_def beforeAll_def raised_def
      suite_scope_ok_def split: option.splits)

lemma testCase_in_suite_scope_returns:
  assumes "suite_scope_ok s" and "passed_in_test_suite s \<noteq> []"
  shows "\<not> raised (testCase n fn s)"
  using assms
  by (auto simp add: testCase_def raised_def suite_scope_ok_def split_beta split: option.splits)

text \<open>
  Claim C10: every registration call, with whatever calls its body makes, keeps the
  invariant that a non-empty suite name in the cursor has a record with a \<open>cases\<close> array;
  the invariant holds in the state the call returns in and in the state it throws in.
  Hence, called with a non-empty suite name, \<open>testCase\<close> and the four hook methods do
  not throw.
\<close>

theorem suite_scope_invariant:
  assumes "suite_scope_ok s"
  shows "suite_scope_ok (final_state (exec c s)) \<and>
         suite_scope_ok (final_state (exec_all cs s)) \<and>
         (passed_in_test_suite s \<noteq> [] \<longrightarrow>
            \<not> raised (testCase n fn s) \<and> \<not> raised (beforeEach cb s) \<and>
            \<not> raised (afterEach cb s) \<and> \<not> raised (afterAll cb s) \<and>
            \<not> raised (beforeAll cb s))"
  using assms
  by (simp add: suite_scope_ok_exec hooks_in_suite_scope_return testCase_in_suite_scope_returns)

text \<open>
  Witness for C10: the invariant holds of the new runner, hence after a plan \<open>p\<close> with a
  suite \<open>s\<close>; there the suite name is not empty, and \<open>testCase\<close> and \<open>beforeEach\<close> return.
\<close>

theorem suite_scope_invariant_witness:
  "suite_scope_ok (new_runner :: nat RhumRunner) \<and>
   suite_scope_ok (final_state
     (exec (TestPlan ''p'' [TestSuite ''s'' []]) (new_runner :: nat RhumRunner))) \<and>
   passed_in_test_suite (final_state
     (exec (TestPlan ''p'' [TestSuite ''s'' []]) (new_runner :: nat RhumRunner))) \<noteq> [] \<and>
   \<not> raised (testCase ''c'' 1 (final_state
     (exec (TestPlan ''p'' [TestSuite ''s'' []]) (new_runner :: nat RhumRunner)))) \<and>
   \<not> raised (beforeEach 2 (final_state
     (exec (TestPlan ''p'' [TestSuite ''s'' []]) (new_runner :: nat RhumRunner))))"
proof -
  have ok: "suite_scope_ok (new_runner :: nat RhumRunner)"
    by (simp add: suite_scope_ok_def new_runner_def)
  have ne: "passed_in_test_suite (final_state
      (exec (TestPlan ''p'' [TestSuite ''s'' []]) (new_runner :: nat RhumRunner))) \<noteq> []"
    by (simp add: method_defs)
  from suite_scope_invariant [OF ok, of "TestPlan ''p'' [TestSuite ''s'' []]" "[]"]
  have ok': "suite_scope_ok (final_state
      (exec (TestPlan ''p'' [TestSuite ''s'' []]) (new_runner :: nat RhumRunner)))"
    by simp
  from suite_scope_invariant [OF ok', of "TestCase ''c'' 1" "[]" "''c''" 1 2] ne ok ok'
  show ?thesis by simp
qed

section \<open>Calls that open no scope\<close>










section \<open>Where a hook is stored\<close>




section \<open>What is stored is what was passed\<close>

text \<open>
  Claim C8: the function stored is the function passed. \<open>testCase\<close>, on a suite record
  with a case list, returns and appends one case whose \<open>testFn\<close> is the argument, after
  the test functions already there; each hook method stores its argument itself in the
  slot it fills, the plan's when the cursor's suite name is empty, the suite record's
  otherwise.
\<close>

theorem registered_functions_stored_as_given:
  "(map_of (suites (plan s)) (passed_in_test_suite s) = Some su \<and> cases su = Some cs \<longrightarrow>
      \<not> raised (testCase n fn s) \<and>
      testFns_of (final_state (testCase n fn s)) (passed_in_test_suite s)
        = Some (map testFn cs @ [fn]))
   \<and> (passed_in_test_plan s \<noteq> [] \<and> passed_in_test_suite s = [] \<longrightarrow>
      before_each_suite_hook (plan (final_state (beforeEach cb s))) = Some cb \<and>
      after_each_suite_hook (plan (final_state (afterEach cb s))) = Some cb \<and>
      after_all_suite_hook (plan (final_state (afterAll cb s))) = Some cb \<and>
      before_all_suite_hook (plan (final_state (beforeAll cb s))) = Some cb)
   \<and> (passed_in_test_plan s \<noteq> [] \<and> passed_in_test_suite s \<noteq> [] \<and>
       map_of (suites (plan s)) (passed_in_test_suite s) = Some su \<longrightarrow>
      suite_slot before_each_case_hook (final_state (beforeEach cb s)) (passed_in_test_suite s)
        = Some cb \<and>
      suite_slot after_each_case_hook (final_state (afterEach cb s)) (passed_in_test_suite s)
        = Some cb \<and>
      suite_slot after_all_case_hook (final_state (afterAll cb s)) (passed_in_test_suite s)
        = Some cb \<and>
      suite_slot before_all_case_hook (final_state (beforeAll cb s)) (passed_in_test_suite s)
        = Some cb)"
  by (simp add: testCase_pushes hooks_plan_scope hooks_suite_scope raised_def final_state_def
      testFns_of_def suite_slot_def map_of_set_suite formatTestCaseName_frame)

text \<open>
  Witness for C8: suite \<open>s\<close> of plan \<open>p\<close> holds the test function 5; registering 6 makes
  the list 5, 6; \<open>afterAll\<close> stores 7 in the suite's slot, and 8 in the plan's slot when no
  suite has been opened.
\<close>

theorem registered_functions_stored_as_given_witness:
  "testFns_of (final_state (exec (TestPlan ''p'' [TestSuite ''s'' [TestCase ''a'' 5]])
      (new_runner :: nat RhumRunner))) ''s'' = Some [5] \<and>
   testFns_of (final_state (testCase ''b'' 6 (final_state
      (exec (TestPlan ''p'' [TestSuite ''s'' [TestCase ''a'' 5]]) (new_runner :: nat RhumRunner)))))
      ''s'' = Some [5, 6] \<and>
   suite_slot after_all_case_hook (final_state (afterAll 7 (final_state
      (exec (TestPlan ''p'' [TestSuite ''s'' [TestCase ''a'' 5]]) (new_runner :: nat RhumRunner)))))
      ''s'' = Some 7 \<and>
   after_all_suite_hook (plan (final_state (afterAll 8 (final_state
      (exec (TestPlan ''p'' []) (new_runner :: nat RhumRunner)))))) = Some 8"
proof -
  let ?s1 = "final_state (exec (TestPlan ''p'' []) (new_runner :: nat RhumRunner))"
  let ?s2 = "final_state (exec (TestPlan ''p'' [TestSuite ''s'' [TestCase ''a'' 5]])
      (new_runner :: nat RhumRunner))"
  have s1: "passed_in_test_plan ?s1 \<noteq> [] \<and> passed_in_test_suite ?s1 = []"
    by (simp add: method_defs)
  obtain su where su: "map_of (suites (plan ?s2)) ''s'' = Some su"
      and cs: "map_option (map testFn) (cases su) = Some [5]"
    by (simp add: method_defs)
  then obtain cs where cs': "cases su = Some cs" "map testFn cs = [5]" by auto
  have s2: "passed_in_test_plan ?s2 \<noteq> [] \<and> passed_in_test_suite ?s2 = ''s''"
    by (simp add: method_defs)
  have t0: "testFns_of ?s2 ''s'' = Some [5]" using su cs by (simp add: testFns_of_def)
  from registered_functions_stored_as_given [of ?s1 _ _ _ _ 8] s1
  have a: "after_all_suite_hook (plan (final_state (afterAll 8 ?s1))) = Some 8" by simp
  from registered_functions_stored_as_given [of ?s2 su cs "''b''" 6 7] s2 su cs'
  have b: "testFns_of (final_state (testCase ''b'' 6 ?s2)) ''s'' = Some [5, 6] \<and>
     suite_slot after_all_case_hook (final_state (afterAll 7 ?s2)) ''s'' = Some 7"
    by simp
  from t0 a b show ?thesis by simp
qed

section \<open>Registering a hook twice\<close>

text \<open>
  Claim C9: two calls of the same hook method in a row, in any state, leave the runner
  exactly as the second call alone does: the first callback is nowhere in the plan
  document. With a plan name set the slot, the plan's or the current suite's, holds the
  second callback.
\<close>

theorem hook_registered_twice_last_wins:
  "exec_all [BeforeEach cb1, BeforeEach cb2] s = exec_all [BeforeEach cb2] s \<and>
   exec_all [AfterEach cb1, AfterEach cb2] s = exec_all [AfterEach cb2] s \<and>
   exec_all [AfterAll cb1, AfterAll cb2] s = exec_all [AfterAll cb2] s \<and>
   exec_all [BeforeAll cb1, BeforeAll cb2] s = exec_all [BeforeAll cb2] s \<and>
   (passed_in_test_plan s \<noteq> [] \<and> passed_in_test_suite s = [] \<longrightarrow>
      before_each_suite_hook (plan (final_state (exec_all [BeforeEach cb1, BeforeEach cb2] s)))
        = Some cb2 \<and>
      after_each_suite_hook (plan (final_state (exec_all [AfterEach cb1, AfterEach cb2] s)))
        = Some cb2 \<and>
      after_all_suite_hook (plan (final_state (exec_all [AfterAll cb1, AfterAll cb2] s)))
        = Some cb2 \<and>
      before_all_suite_hook (plan (final_state (exec_all [BeforeAll cb1, BeforeAll cb2] s)))
        = Some cb2) \<and>
   (passed_in_test_plan s \<noteq> [] \<and> passed_in_test_suite s \<noteq> [] \<and>
    map_of (suites (plan s)) (passed_in_test_suite s) = Some su \<longrightarrow>
      suite_slot before_each_case_hook
        (final_state (exec_all [BeforeEach cb1, BeforeEach cb2] s)) (passed_in_test_suite s)
        = Some cb2 \<and>
      suite_slot after_each_case_hook
        (final_state (exec_all [AfterEach cb1, AfterEach cb2] s)) (passed_in_test_suite s)
        = Some cb2 \<and>
      suite_slot after_all_case_hook
        (final_state (exec_all [AfterAll cb1, AfterAll cb2] s)) (passed_in_test_suite s)
        = Some cb2 \<and>
      suite_slot before_all_case_hook
        (final_state (exec_all [BeforeAll cb1, BeforeAll cb2] s)) (passed_in_test_suite s)
        = Some cb2)"
proof -
  have twice: "exec_all [BeforeEach cb1, BeforeEach cb2] s = exec_all [BeforeEach cb2] s"
    "exec_all [AfterEach cb1, AfterEach cb2] s = exec_all [AfterEach cb2] s"
    "exec_all [AfterAll cb1, AfterAll cb2] s = exec_all [AfterAll cb2] s"
    "exec_all [BeforeAll cb1, BeforeAll cb2] s = exec_all [BeforeAll cb2] s"
    by (simp_all add: beforeEach_def afterEach_def afterAll_def beforeAll_def set_suite_twice
        map_of_set_suite set_suite_cursor split: option.splits)
  show ?thesis
    unfolding twice
    by (simp add: hooks_plan_scope hooks_suite_scope final_state_def suite_slot_def
        map_of_set_suite)
qed

text \<open>
  Witness for C9: \<open>beforeEach\<close> of 1 and then of 2, in the body of plan \<open>p\<close> and in the body
  of its suite \<open>s\<close>: the slot holds 2.
\<close>

theorem hook_registered_twice_last_wins_witness:
  "passed_in_test_plan (final_state (exec (TestPlan ''p'' []) (new_runner :: nat RhumRunner))) \<noteq> [] \<and>
   passed_in_test_suite (final_state (exec (TestPlan ''p'' []) (new_runner :: nat RhumRunner))) = [] \<and>
   before_each_suite_hook (plan (final_state (exec_all [BeforeEach 1, BeforeEach 2]
     (final_state (exec (TestPlan ''p'' []) (new_runner :: nat RhumRunner)))))) = Some 2 \<and>
   passed_in_test_suite (final_state
     (exec (TestPlan ''p'' [TestSuite ''s'' []]) (new_runner :: nat RhumRunner))) = ''s'' \<and>
   suite_slot before_each_case_hook (final_state (exec_all [BeforeEach 1, BeforeEach 2]
     (final_state (exec (TestPlan ''p'' [TestSuite ''s'' []]) (new_runner :: nat RhumRunner)))))
     ''s'' = Some 2"
  using hook_registered_twice_last_wins [of 1 2
      "final_state (exec (TestPlan ''p'' []) (new_runner :: nat RhumRunner))" fresh_suite]
    hook_registered_twice_last_wins [of 1 2
      "final_state (exec (TestPlan ''p'' [TestSuite ''s'' []]) (new_runner :: nat RhumRunner))"
      fresh_suite]
  by (simp add: method_defs)

section \<open>Which display names carry a header\<close>

text \<open>The three templates have three different lengths for the same names, so a display
  name tells which template made it.\<close>

lemma length_repeat: "length (repeat s k) = k * length s"
  by (induction k) (simp_all add: repeat_def)

lemma length_plan_suite_case_name:
  "length (plan_suite_case_name p su n) = 3 * length n + 40 + length p + length su"
  by (simp add: plan_suite_case_name_def length_repeat backspace_def newline_def extraChars_def)

lemma length_suite_case_name:
  "length (suite_case_name su n) = 3 * length n + 38 + length su"
  by (simp add: suite_case_name_def length_repeat backspace_def newline_def extraChars_def)

lemma length_case_name: "length (case_name n) = 2 * length n + 23"
  by (simp add: case_name_def length_repeat backspace_def extraChars_def)

lemma templates_differ:
  "plan_suite_case_name p su n \<noteq> suite_case_name su n"
  "plan_suite_case_name p su n \<noteq> case_name n"
  "suite_case_name su n \<noteq> case_name n"
  "suite_case_name su n \<noteq> plan_suite_case_name p su n"
  "case_name n \<noteq> plan_suite_case_name p su n"
  "case_name n \<noteq> suite_case_name su n"
proof -
  have a: "length (plan_suite_case_name p su n) \<noteq> length (suite_case_name su n)"
    by (simp add: length_plan_suite_case_name length_suite_case_name)
  have b: "length (plan_suite_case_name p su n) \<noteq> length (case_name n)"
    by (simp add: length_plan_suite_case_name length_case_name)
  have c: "length (suite_case_name su n) \<noteq> length (case_name n)"
    by (simp add: length_suite_case_name length_case_name)
  from a show "plan_suite_case_name p su n \<noteq> suite_case_name su n" by auto
  from a show "suite_case_name su n \<noteq> plan_suite_case_name p su n" by auto
  from b show "plan_suite_case_name p su n \<noteq> case_name n" by auto
  from b show "case_name n \<noteq> plan_suite_case_name p su n" by auto
  from c show "suite_case_name su n \<noteq> case_name n" by auto
  from c show "case_name n \<noteq> suite_case_name su n" by auto
qed

lemma formatTestCaseName_result:
  "fst (formatTestCaseName n s) =
     (if test_plan_in_progress s \<noteq> passed_in_test_plan s
      then plan_suite_case_name (passed_in_test_plan s) (passed_in_test_suite s) n
      else if test_suite_in_progress s \<noteq> passed_in_test_suite s
      then suite_case_name (passed_in_test_suite s) n
      else case_name n)"
  by (simp add: formatTestCaseName_def Let_def)

lemma display_names_Cons:
  "display_names ((p, su, n) # rs) s =
     fst (formatTestCaseName n (s\<lparr>passed_in_test_suite := su, passed_in_test_plan := p\<rparr>)) #
     display_names rs
       (snd (formatTestCaseName n (s\<lparr>passed_in_test_suite := su, passed_in_test_plan := p\<rparr>)))"
  by (simp add: split_beta)

lemma plan_headers_Cons:
  "plan_headers ((p, su, n) # rs) (out # outs) =
     (if out = plan_suite_case_name p su n then [(p, su, n)] else []) @ plan_headers rs outs"
  by (simp add: plan_headers_def)

lemma suite_headers_Cons:
  "suite_headers ((p, su, n) # rs) (out # outs) =
     (if out = plan_suite_case_name p su n \<or> out = suite_case_name su n then [(p, su, n)] else [])
       @ suite_headers rs outs"
  by (simp add: suite_headers_def)

lemma plan_headers_display_names:
  "plan_headers regs (display_names regs s) = plan_changes (test_plan_in_progress s) regs"
proof (induction regs arbitrary: s)
  case Nil
  show ?case by (simp add: plan_headers_def)
next
  case (Cons r rs)
  obtain p su n where r: "r = (p, su, n)" by (cases r)
  show ?case
    unfolding r display_names_Cons plan_headers_Cons Cons.IH
    by (simp add: formatTestCaseName_result formatTestCaseName_in_progress templates_differ)
qed

lemma suite_headers_display_names:
  "suite_headers regs (display_names regs s) =
     suite_changes (test_plan_in_progress s) (test_suite_in_progress s) regs"
proof (induction regs arbitrary: s)
  case Nil
  show ?case by (simp add: suite_headers_def)
next
  case (Cons r rs)
  obtain p su n where r: "r = (p, su, n)" by (cases r)
  show ?case
    unfolding r display_names_Cons suite_headers_Cons Cons.IH
    by (simp add: formatTestCaseName_result formatTestCaseName_in_progress templates_differ)
qed

lemma length_display_names: "length (display_names regs s) = length regs"
  by (induction regs arbitrary: s) (auto simp add: split_beta)

text \<open>
  Claim C7, as the code has it: over any sequence of registrations, the display name
  carries the plan line exactly when the plan name differs from the plan name of the
  registration just before (from \<open>test_plan_in_progress\<close> at the start), and the suite line
  exactly when the plan name or the suite name differs from that of the registration
  just before. So a header comes once per run of consecutive registrations under the
  same names, however many cases the run has, and again when a name comes back after
  another. \<open>testCase\<close> stores this display name in the case it pushes, and leaves the
  names in progress equal to the cursor's names.
\<close>

theorem headers_follow_name_changes:
  "length (display_names regs s) = length regs \<and>
   plan_headers regs (display_names regs s) = plan_changes (test_plan_in_progress s) regs \<and>
   suite_headers regs (display_names regs s) =
     suite_changes (test_plan_in_progress s) (test_suite_in_progress s) regs \<and>
   (map_of (suites (plan s)) (passed_in_test_suite s) = Some su \<and> cases su = Some cs \<longrightarrow>
      new_names_of (final_state (testCase n fn s)) (passed_in_test_suite s) =
        Some (map new_name cs @
          display_names [(passed_in_test_plan s, passed_in_test_suite s, n)] s) \<and>
      test_plan_in_progress (final_state (testCase n fn s)) = passed_in_test_plan s \<and>
      test_suite_in_progress (final_state (testCase n fn s)) = passed_in_test_suite s)"
  by (simp add: length_display_names plan_headers_display_names suite_headers_display_names
      testCase_pushes final_state_def new_names_of_def map_of_set_suite set_suite_cursor
      formatTestCaseName_in_progress split_beta)

text \<open>
  Witness for C7: plan \<open>P\<close> with two cases in suite \<open>A\<close> and one in suite \<open>B\<close>: one plan
  line, at the first case; two suite lines, at the first case of each suite. Through
  \<open>testCase\<close>: the second case of \<open>A\<close> gets the name without header.
\<close>

theorem headers_follow_name_changes_witness:
  "plan_headers
     [(''P'', ''A'', ''c1''), (''P'', ''A'', ''c2''), (''P'', ''B'', ''c3'')]
     (display_names
       [(''P'', ''A'', ''c1''), (''P'', ''A'', ''c2''), (''P'', ''B'', ''c3'')]
       (new_runner :: nat RhumRunner))
     = [(''P'', ''A'', ''c1'')] \<and>
   suite_headers
     [(''P'', ''A'', ''c1''), (''P'', ''A'', ''c2''), (''P'', ''B'', ''c3'')]
     (display_names
       [(''P'', ''A'', ''c1''), (''P'', ''A'', ''c2''), (''P'', ''B'', ''c3'')]
       (new_runner :: nat RhumRunner))
     = [(''P'', ''A'', ''c1''), (''P'', ''B'', ''c3'')] \<and>
   new_names_of (final_state
       (exec (TestPlan ''P'' [TestSuite ''A'' [TestCase ''c1'' (1::nat)]]) new_runner)) ''A''
     = Some [plan_suite_case_name ''P'' ''A'' ''c1''] \<and>
   new_names_of (final_state (testCase ''c2'' 2 (final_state
       (exec (TestPlan ''P'' [TestSuite ''A'' [TestCase ''c1'' (1::nat)]]) new_runner)))) ''A''
     = Some [plan_suite_case_name ''P'' ''A'' ''c1'', case_name ''c2'']"
proof -
  let ?R = "[(''P'', ''A'', ''c1''), (''P'', ''A'', ''c2''), (''P'', ''B'', ''c3'')]"
  let ?c = "\<lparr>name = ''c1'', new_name = plan_suite_case_name ''P'' ''A'' ''c1'', testFn = 1::nat\<rparr>"
  define S where "S = final_state
       (exec (TestPlan ''P'' [TestSuite ''A'' [TestCase ''c1'' (1::nat)]]) new_runner)"
  have s: "passed_in_test_plan S = ''P''" "passed_in_test_suite S = ''A''"
    "test_plan_in_progress S = ''P''" "test_suite_in_progress S = ''A''"
    "map_of (suites (plan S)) ''A'' = Some (fresh_suite\<lparr>cases := Some [?c]\<rparr>)"
    by (simp_all add: S_def method_defs)
  have n0: "new_names_of S ''A'' = Some [plan_suite_case_name ''P'' ''A'' ''c1'']"
    using s(5) by (simp add: new_names_of_def)
  from headers_follow_name_changes [of ?R "new_runner :: nat RhumRunner"]
  have a: "plan_headers ?R (display_names ?R (new_runner :: nat RhumRunner)) = [(''P'', ''A'', ''c1'')]"
    and b: "suite_headers ?R (display_names ?R (new_runner :: nat RhumRunner))
       = [(''P'', ''A'', ''c1''), (''P'', ''B'', ''c3'')]"
    by (simp_all add: new_runner_def)
  have same: "S\<lparr>passed_in_test_suite := ''A'', passed_in_test_plan := ''P''\<rparr> = S"
    by (simp add: S_def method_defs)
  have d: "fst (formatTestCaseName ''c2'' S) = case_name ''c2''"
    using s(1-4) by (simp add: formatTestCaseName_def)
  from headers_follow_name_changes [of "[]" S "fresh_suite\<lparr>cases := Some [?c]\<rparr>" "[?c]" "''c2''" 2]
  have c: "new_names_of (final_state (testCase ''c2'' 2 S)) ''A''
     = Some [plan_suite_case_name ''P'' ''A'' ''c1'', case_name ''c2'']"
    by (simp add: s same d split_beta)
  from a b n0 c show ?thesis unfolding S_def by simp
qed

text \<open>
  Claim C7 as stated fails. Plans \<open>P\<close>, \<open>Q\<close>, \<open>P\<close>: two distinct plan names, three plan
  lines, two of them for \<open>P\<close>. Suites \<open>A\<close>, \<open>B\<close>, \<open>A\<close> of one plan: three suite lines, two of
  them for \<open>A\<close>. And through the methods: after plans \<open>P\<close>, \<open>Q\<close>, \<open>P\<close> the cases of suites \<open>A\<close>
  and \<open>C\<close> both hold a display name with the plan line of \<open>P\<close>.
\<close>

theorem header_once_per_name_counterexample:
  "plan_headers
     [(''P'', ''A'', ''c1''), (''Q'', ''B'', ''c2''), (''P'', ''C'', ''c3'')]
     (display_names
       [(''P'', ''A'', ''c1''), (''Q'', ''B'', ''c2''), (''P'', ''C'', ''c3'')]
       (new_runner :: nat RhumRunner))
     = [(''P'', ''A'', ''c1''), (''Q'', ''B'', ''c2''), (''P'', ''C'', ''c3'')] \<and>
   remdups (map fst [(''P'', ''A'', ''c1''), (''Q'', ''B'', ''c2''), (''P'', ''C'', ''c3'')])
     = [''Q'', ''P''] \<and>
   suite_headers
     [(''P'', ''A'', ''c1''), (''P'', ''B'', ''c2''), (''P'', ''A'', ''c3'')]
     (display_names
       [(''P'', ''A'', ''c1''), (''P'', ''B'', ''c2''), (''P'', ''A'', ''c3'')]
       (new_runner :: nat RhumRunner))
     = [(''P'', ''A'', ''c1''), (''P'', ''B'', ''c2''), (''P'', ''A'', ''c3'')] \<and>
   new_names_of (final_state (exec_all
       [TestPlan ''P'' [TestSuite ''A'' [TestCase ''c1'' (1::nat)]],
        TestPlan ''Q'' [TestSuite ''B'' [TestCase ''c2'' 2]],
        TestPlan ''P'' [TestSuite ''C'' [TestCase ''c3'' 3]]] new_runner)) ''A''
     = Some [plan_suite_case_name ''P'' ''A'' ''c1''] \<and>
   new_names_of (final_state (exec_all
       [TestPlan ''P'' [TestSuite ''A'' [TestCase ''c1'' (1::nat)]],
        TestPlan ''Q'' [TestSuite ''B'' [TestCase ''c2'' 2]],
        TestPlan ''P'' [TestSuite ''C'' [TestCase ''c3'' 3]]] new_runner)) ''C''
     = Some [plan_suite_case_name ''P'' ''C'' ''c3'']"
proof -
  have "plan_headers
     [(''P'', ''A'', ''c1''), (''Q'', ''B'', ''c2''), (''P'', ''C'', ''c3'')]
     (display_names
       [(''P'', ''A'', ''c1''), (''Q'', ''B'', ''c2''), (''P'', ''C'', ''c3'')]
       (new_runner :: nat RhumRunner))
     = [(''P'', ''A'', ''c1''), (''Q'', ''B'', ''c2''), (''P'', ''C'', ''c3'')]"
    by (simp only: plan_headers_display_names) (simp add: new_runner_def)
  moreover have "suite_headers
     [(''P'', ''A'', ''c1''), (''P'', ''B'', ''c2''), (''P'', ''A'', ''c3'')]
     (display_names
       [(''P'', ''A'', ''c1''), (''P'', ''B'', ''c2''), (''P'', ''A'', ''c3'')]
       (new_runner :: nat RhumRunner))
     = [(''P'', ''A'', ''c1''), (''P'', ''B'', ''c2''), (''P'', ''A'', ''c3'')]"
    by (simp only: suite_headers_display_names) (simp add: new_runner_def)
  moreover have "remdups (map fst [(''P'', ''A'', ''c1''), (''Q'', ''B'', ''c2''), (''P'', ''C'', ''c3'')])
     = [''Q'', ''P'']"
    by simp
  moreover have "new_names_of (final_state (exec_all
       [TestPlan ''P'' [TestSuite ''A'' [TestCase ''c1'' (1::nat)]],
        TestPlan ''Q'' [TestSuite ''B'' [TestCase ''c2'' 2]],
        TestPlan ''P'' [TestSuite ''C'' [TestCase ''c3'' 3]]] new_runner)) ''A''
     = Some [plan_suite_case_name ''P'' ''A'' ''c1'']"
    by (simp add: method_defs)
  moreover have "new_names_of (final_state (exec_all
       [TestPlan ''P'' [TestSuite ''A'' [TestCase ''c1'' (1::nat)]],
        TestPlan ''Q'' [TestSuite ''B'' [TestCase ''c2'' 2]],
        TestPlan ''P'' [TestSuite ''C'' [TestCase ''c3'' 3]]] new_runner)) ''C''
     = Some [plan_suite_case_name ''P'' ''C'' ''c3'']"
    by (simp add: method_defs)
  ultimately show ?thesis by simp
qed

section \<open>The order of the run\<close>

lemma called_in_order_append [simp]:
  "called_in_order (xs @ ys) = called_in_order xs @ called_in_order ys"
  by (simp add: called_in_order_def)

lemma called_in_order_simps [simp]:
  "called_in_order [] = []"
  "called_in_order (None # xs) = called_in_order xs"
  "called_in_order (Some f # xs) = f # called_in_order xs"
  by (simp_all add: called_in_order_def)

lemma set_called_in_order: "set (called_in_order slots) = {f. Some f \<in> set slots}"
  by (induction slots) (auto simp add: called_in_order_def split: option.splits)

lemma run_hook_quiet:
  assumes "\<forall>f \<in> set (called_in_order [h]). \<not> throws f"
  shows "run_hook throws h tr = Inr (tr @ called_in_order [h])"
  using assms by (cases h) (simp_all add: run_hook_def)

lemma run_case_quiet:
  assumes "\<forall>f \<in> set (called_in_order (case_slots su c)). \<not> throws f"
  shows "run_case throws su c tr = tr @ called_in_order (case_slots su c)"
proof -
  have a: "\<forall>f \<in> set (called_in_order [before_each_case_hook su]). \<not> throws f"
    and b: "\<forall>f \<in> set (called_in_order [Some (testFn c)]). \<not> throws f"
    and d: "\<forall>f \<in> set (called_in_order [after_each_case_hook su]). \<not> throws f"
    using assms by (auto simp add: case_slots_def set_called_in_order)
  have "called_in_order (case_slots su c) =
      called_in_order [before_each_case_hook su] @ called_in_order [Some (testFn c)] @
      called_in_order [after_each_case_hook su]"
    unfolding called_in_order_append [symmetric] by (simp add: case_slots_def)
  then show ?thesis
    by (simp add: run_case_def run_hook_quiet [OF a] run_hook_quiet [OF b] run_hook_quiet [OF d])
qed

lemma run_cases_quiet:
  assumes "\<forall>f \<in> set (called_in_order (concat (map (case_slots su) cs))). \<not> throws f"
  shows "run_cases throws su cs tr = tr @ called_in_order (concat (map (case_slots su) cs))"
  using assms
proof (induction cs arbitrary: tr)
  case Nil
  show ?case by simp
next
  case (Cons c cs)
  from Cons.prems have c: "\<forall>f \<in> set (called_in_order (case_slots su c)). \<not> throws f"
    and cs: "\<forall>f \<in> set (called_in_order (concat (map (case_slots su) cs))). \<not> throws f"
    by simp_all
  show ?case
    by (simp add: run_case_quiet [OF c] Cons.IH [OF cs])
qed

lemma run_suite_quiet:
  assumes "\<forall>f \<in> set (called_in_order (suite_slots pl su)). \<not> throws f"
  shows "run_suite throws pl su tr = Inr (tr @ called_in_order (suite_slots pl su))"
proof -
  have a: "\<forall>f \<in> set (called_in_order [before_each_suite_hook pl]). \<not> throws f"
    and b: "\<forall>f \<in> set (called_in_order [before_all_case_hook su]). \<not> throws f"
    and c: "\<forall>f \<in> set (called_in_order (concat (map (case_slots su) (cases_of su)))). \<not> throws f"
    and d: "\<forall>f \<in> set (called_in_order [after_all_case_hook su]). \<not> throws f"
    and e: "\<forall>f \<in> set (called_in_order [after_each_suite_hook pl]). \<not> throws f"
    using assms by (auto simp add: suite_slots_def set_called_in_order)
  have "called_in_order (suite_slots pl su) =
      called_in_order [before_each_suite_hook pl] @ called_in_order [before_all_case_hook su] @
      called_in_order (concat (map (case_slots su) (cases_of su))) @
      called_in_order [after_all_case_hook su] @ called_in_order [after_each_suite_hook pl]"
    unfolding called_in_order_append [symmetric] by (simp add: suite_slots_def)
  then show ?thesis
    by (simp add: run_suite_def run_hook_quiet [OF a] run_hook_quiet [OF b]
        run_cases_quiet [OF c] run_hook_quiet [OF d] run_hook_quiet [OF e])
qed

lemma run_suites_quiet:
  assumes "\<forall>f \<in> set (called_in_order (concat (map (\<lambda>(n, su). suite_slots pl su) ss))). \<not> throws f"
  shows "run_suites throws pl ss tr =
           Inr (tr @ called_in_order (concat (map (\<lambda>(n, su). suite_slots pl su) ss)))"
  using assms
proof (induction ss arbitrary: tr)
  case Nil
  show ?case by simp
next
  case (Cons x ss)
  obtain n su where x: "x = (n, su)" by (cases x)
  from Cons.prems have su: "\<forall>f \<in> set (called_in_order (suite_slots pl su)). \<not> throws f"
    and ss: "\<forall>f \<in> set (called_in_order (concat (map (\<lambda>(n, su). suite_slots pl su) ss))). \<not> throws f"
    by (simp_all add: x)
  show ?case
    by (simp add: x run_suite_quiet [OF su] Cons.IH [OF ss])
qed

text \<open>When no suite is named by an array index or \<open>__proto__\<close>, the keys are listed in
  the order of the list.\<close>

lemmas key_defs = suite_entries_def is_array_index_def listed_last_def is_digit_def
  decimal_value_def

lemmas run_defs = run_def TestCase_run_def run_suite_def run_case_def run_hook_def cases_of_def
  no_throw_def throws_only_def

lemma suite_entries_listed_last:
  assumes "\<forall>k \<in> set (map fst ss). listed_last k"
  shows "suite_entries ss = ss"
proof -
  have "filter (\<lambda>(k, su). is_array_index k) ss = []"
    using assms by (auto simp add: filter_empty_conv listed_last_def)
  moreover have "filter (\<lambda>(k, su). listed_last k) ss = ss"
    using assms by (auto simp add: filter_id_conv)
  ultimately show ?thesis by (simp add: suite_entries_def)
qed

text \<open>The keys of the document after a call: each declared name takes its place in turn.\<close>

lemma keys_set_suite:
  "map fst (suites (plan (set_suite k su s))) = declare_name k (map fst (suites (plan s)))"
  by (simp add: set_suite_def update_keys declare_name_def)

lemma declare_name_present: "k \<in> set ks \<Longrightarrow> declare_name k ks = ks"
  by (simp add: declare_name_def)

lemma keys_testCase:
  "map fst (suites (plan (final_state (testCase n fn s)))) = map fst (suites (plan s))"
proof (cases "map_of (suites (plan s)) (passed_in_test_suite s)")
  case None
  then show ?thesis by (simp add: testCase_def final_state_def)
next
  case (Some su)
  then have "passed_in_test_suite s \<in> set (map fst (suites (plan s)))"
    by (metis map_of_eq_None_iff option.distinct(1) set_map)
  then show ?thesis using Some
    by (cases "cases su")
       (simp_all add: testCase_def final_state_def split_beta keys_set_suite
         declare_name_present formatTestCaseName_frame)
qed

lemma keys_hooks:
  "map fst (suites (plan (final_state (beforeEach cb s)))) = map fst (suites (plan s))"
  "map fst (suites (plan (final_state (afterEach cb s)))) = map fst (suites (plan s))"
  "map fst (suites (plan (final_state (afterAll cb s)))) = map fst (suites (plan s))"
  "map fst (suites (plan (final_state (beforeAll cb s)))) = map fst (suites (plan s))"
proof -
  have present: "passed_in_test_suite s \<in> set (map fst (suites (plan s)))"
    if "map_of (suites (plan s)) (passed_in_test_suite s) = Some su" for su
    using that by (metis map_of_eq_None_iff option.distinct(1) set_map)
  show "map fst (suites (plan (final_state (beforeEach cb s)))) = map fst (suites (plan s))"
    using present
    by (auto simp add: beforeEach_def final_state_def keys_set_suite declare_name_present
        split: option.splits)
  show "map fst (suites (plan (final_state (afterEach cb s)))) = map fst (suites (plan s))"
    using present
    by (auto simp add: afterEach_def final_state_def keys_set_suite declare_name_present
        split: option.splits)
  show "map fst (suites (plan (final_state (afterAll cb s)))) = map fst (suites (plan s))"
    using present
    by (auto simp add: afterAll_def final_state_def keys_set_suite declare_name_present
        split: option.splits)
  show "map fst (suites (plan (final_state (beforeAll cb s)))) = map fst (suites (plan s))"
    using present
    by (auto simp add: beforeAll_def final_state_def keys_set_suite declare_name_present
        split: option.splits)
qed

lemma keys_exec:
  "\<not> raised (exec c s) \<Longrightarrow>
     map fst (suites (plan (final_state (exec c s)))) =
       fold declare_name (declared c) (map fst (suites (plan s)))"
  "\<not> raised (exec_all cs s) \<Longrightarrow>
     map fst (suites (plan (final_state (exec_all cs s)))) =
       fold declare_name (declared_all cs) (map fst (suites (plan s)))"
proof (induction c s and cs s rule: exec_exec_all.induct)
  case (1 n b s)
  then show ?case by (simp add: testPlan_def Let_def)
next
  case (2 n b s)
  then show ?case by (simp add: testSuite_def Let_def keys_set_suite)
next
  case (3 n fn s)
  show ?case by (simp add: keys_testCase)
next
  case (10 s)
  show ?case by (simp add: final_state_def)
next
  case (11 c cs s)
  from 11(3) obtain s' where s': "exec c s = Inr s'"
    by (cases "exec c s") (simp_all add: raised_def)
  with 11(3) have r: "\<not> raised (exec_all cs s')" by simp
  from s' have "\<not> raised (exec c s)" by (simp add: raised_def)
  from 11(1) [OF this] s'
  have "map fst (suites (plan s')) = fold declare_name (declared c) (map fst (suites (plan s)))"
    by (simp add: final_state_def)
  with 11(2) [OF s' r] s' show ?case by simp
qed (simp_all add: keys_hooks only_def skip_def, simp_all add: final_state_def)

lemma fold_declare_distinct:
  "distinct ds \<Longrightarrow> set ds \<inter> set ks = {} \<Longrightarrow> fold declare_name ds ks = ks @ ds"
proof (induction ds arbitrary: ks)
  case Nil
  show ?case by simp
next
  case (Cons d ds)
  from Cons.prems have "declare_name d ks = ks @ [d]" by (simp add: declare_name_def)
  moreover from Cons.prems have "distinct ds" "set ds \<inter> set (ks @ [d]) = {}" by auto
  ultimately show ?case using Cons.IH [of "ks @ [d]"] by simp
qed

text \<open>
  Claim C1, as the model of the engine has it. When no function of the plan throws and
  no suite is named by an array index or \<open>__proto__\<close>, \<open>run\<close> calls, in this order and
  nothing else: the plan's before-all hook; for each suite in the order in which the
  names were first registered, the plan's before-each hook, the suite's before-all
  hook, for each case in the order of the case list the suite's before-each hook, the
  test function and the suite's after-each hook, then the suite's after-all hook and
  the plan's after-each hook; at the end the plan's after-all hook. An unset slot
  contributes no call: the functions called are exactly those held by the slots that
  are set. (The plan may have no suite, a suite no case.) The order of registration is
  the order of declaration: calls that return, made on an empty document and declaring
  each suite once, leave the suite names in the order of the \<open>testSuite\<close> calls, and
  \<open>testCase\<close> puts its case after the cases already in the suite.
\<close>

theorem run_calls_in_order:
  "((\<forall>f \<in> set (called_in_order (plan_slots (plan s))). \<not> throws f) \<and>
    (\<forall>k \<in> set (map fst (suites (plan s))). listed_last k) \<longrightarrow>
      run throws s = Inr (called_in_order (plan_slots (plan s))) \<and>
      set (called_in_order (plan_slots (plan s))) = {f. Some f \<in> set (plan_slots (plan s))})
   \<and> (suites (plan s0) = [] \<and> distinct (declared_all cs) \<and> \<not> raised (exec_all cs s0) \<longrightarrow>
      map fst (suites (plan (final_state (exec_all cs s0)))) = declared_all cs)
   \<and> (map_of (suites (plan s)) (passed_in_test_suite s) = Some su \<and> cases su = Some old \<longrightarrow>
      \<not> raised (testCase n fn s) \<and>
      testFns_of (final_state (testCase n fn s)) (passed_in_test_suite s)
        = Some (map testFn old @ [fn]))"
proof (intro conjI impI)
  let ?pl = "plan s"
  assume h: "(\<forall>f \<in> set (called_in_order (plan_slots (plan s))). \<not> throws f) \<and>
    (\<forall>k \<in> set (map fst (suites (plan s))). listed_last k)"
  then have entries: "suite_entries (suites ?pl) = suites ?pl"
    by (simp add: suite_entries_listed_last)
  from h have a: "\<forall>f \<in> set (called_in_order [before_all_suite_hook ?pl]). \<not> throws f"
    and b: "\<forall>f \<in> set (called_in_order (concat (map (\<lambda>(n, su). suite_slots ?pl su) (suites ?pl)))). \<not> throws f"
    and c: "\<forall>f \<in> set (called_in_order [after_all_suite_hook ?pl]). \<not> throws f"
    by (auto simp add: plan_slots_def set_called_in_order)
  have "called_in_order (plan_slots ?pl) =
      called_in_order [before_all_suite_hook ?pl] @
      called_in_order (concat (map (\<lambda>(n, su). suite_slots ?pl su) (suites ?pl))) @
      called_in_order [after_all_suite_hook ?pl]"
    unfolding called_in_order_append [symmetric] by (simp add: plan_slots_def)
  then show "run throws s = Inr (called_in_order (plan_slots (plan s)))"
    by (simp add: run_def TestCase_run_def entries run_hook_quiet [OF a] run_suites_quiet [OF b]
        run_hook_quiet [OF c])
  show "set (called_in_order (plan_slots (plan s))) = {f. Some f \<in> set (plan_slots (plan s))}"
    by (rule set_called_in_order)
next
  assume "suites (plan s0) = [] \<and> distinct (declared_all cs) \<and> \<not> raised (exec_all cs s0)"
  then show "map fst (suites (plan (final_state (exec_all cs s0)))) = declared_all cs"
    by (simp add: keys_exec fold_declare_distinct)
next
  assume h: "map_of (suites (plan s)) (passed_in_test_suite s) = Some su \<and> cases su = Some old"
  then show "\<not> raised (testCase n fn s)"
    by (simp add: testCase_pushes raised_def)
  from h show "testFns_of (final_state (testCase n fn s)) (passed_in_test_suite s)
        = Some (map testFn old @ [fn])"
    by (simp add: testCase_pushes final_state_def testFns_of_def map_of_set_suite
        formatTestCaseName_frame)
qed

text \<open>
  Witness for C1: plan \<open>p\<close> with its four hooks 1 to 4, suite \<open>a\<close> with its four hooks 5 to
  8 and the test functions 10 and 11, suite \<open>b\<close> with no hook and the test function 12.
\<close>

theorem run_calls_in_order_witness:
  "run no_throw (final_state (exec_all [TestPlan ''p''
      [BeforeAll (1::nat), BeforeEach 2, AfterEach 3, AfterAll 4,
       TestSuite ''a'' [BeforeAll 5, BeforeEach 6, AfterEach 7, AfterAll 8,
                        TestCase ''x'' 10, TestCase ''y'' 11],
       TestSuite ''b'' [TestCase ''z'' 12]]] new_runner))
     = Inr [1, 2, 5, 6, 10, 7, 6, 11, 7, 8, 3, 2, 12, 3, 4] \<and>
   map fst (suites (plan (final_state (exec_all [TestPlan ''p''
      [BeforeAll (1::nat), BeforeEach 2, AfterEach 3, AfterAll 4,
       TestSuite ''a'' [BeforeAll 5, BeforeEach 6, AfterEach 7, AfterAll 8,
                        TestCase ''x'' 10, TestCase ''y'' 11],
       TestSuite ''b'' [TestCase ''z'' 12]]] new_runner)))) = [''a'', ''b''] \<and>
   testFns_of (final_state (testCase ''w'' 13 (final_state (exec_all [TestPlan ''p''
      [BeforeAll (1::nat), BeforeEach 2, AfterEach 3, AfterAll 4,
       TestSuite ''a'' [BeforeAll 5, BeforeEach 6, AfterEach 7, AfterAll 8,
                        TestCase ''x'' 10, TestCase ''y'' 11],
       TestSuite ''b'' [TestCase ''z'' 12]]] new_runner)))) ''b'' = Some [12, 13]"
proof -
  define prog :: "nat call list" where "prog = [TestPlan ''p''
      [BeforeAll (1::nat), BeforeEach 2, AfterEach 3, AfterAll 4,
       TestSuite ''a'' [BeforeAll 5, BeforeEach 6, AfterEach 7, AfterAll 8,
                        TestCase ''x'' 10, TestCase ''y'' 11],
       TestSuite ''b'' [TestCase ''z'' 12]]]"
  define S where "S = final_state (exec_all prog new_runner)"
  have keys: "map fst (suites (plan S)) = [''a'', ''b'']"
    by (simp add: S_def prog_def method_defs)
  have order: "called_in_order (plan_slots (plan S)) = [1, 2, 5, 6, 10, 7, 6, 11, 7, 8, 3, 2, 12, 3, 4]"
    by (simp add: S_def prog_def method_defs plan_slots_def suite_slots_def case_slots_def
        cases_of_def)
  have quiet: "\<forall>f \<in> set (called_in_order (plan_slots (plan S))). \<not> no_throw f"
    by (simp add: no_throw_def)
  have names: "\<forall>k \<in> set (map fst (suites (plan S))). listed_last k"
    unfolding keys by (simp add: key_defs)
  have start: "suites (plan (new_runner :: nat RhumRunner)) = []"
    by (simp add: new_runner_def empty_plan_def)
  have decl: "declared_all prog = [''a'', ''b'']" by (simp add: prog_def)
  have ok: "\<not> raised (exec_all prog new_runner)"
    by (simp add: prog_def method_defs)
  obtain su old where su: "map_of (suites (plan S)) (passed_in_test_suite S) = Some su"
      "cases su = Some old" "map testFn old = [12]" "passed_in_test_suite S = ''b''"
    by (simp add: S_def prog_def method_defs)
  note t = run_calls_in_order [of S no_throw new_runner prog su old "''w''" 13]
  from t quiet names order have a: "run no_throw S = Inr [1, 2, 5, 6, 10, 7, 6, 11, 7, 8, 3, 2, 12, 3, 4]"
    by simp
  from t start decl ok have b: "map fst (suites (plan S)) = [''a'', ''b'']"
    unfolding S_def by simp
  from t su have c: "testFns_of (final_state (testCase ''w'' 13 S)) ''b'' = Some [12, 13]"
    by simp
  from a b c show ?thesis unfolding S_def prog_def by simp
qed

text \<open>
  Claim C1 as stated fails. Suites declared as \<open>b\<close>, \<open>2\<close>, \<open>1\<close> with the test functions 1,
  2, 3 run as \<open>1\<close>, \<open>2\<close>, \<open>b\<close>: the object lists array indices first, in ascending order.
  In the plan of the witness, when the test function 10 throws, the after-each hook 7
  is not called for that case; when the before-all hook 5 of suite \<open>a\<close> throws, the run
  ends there.
\<close>

theorem run_order_counterexample:
  "map fst (suites (plan (final_state (exec (TestPlan ''p''
      [TestSuite ''b'' [TestCase ''x'' (1::nat)],
       TestSuite ''2'' [TestCase ''y'' 2],
       TestSuite ''1'' [TestCase ''z'' 3]]) new_runner)))) = [''b'', ''2'', ''1''] \<and>
   run no_throw (final_state (exec (TestPlan ''p''
      [TestSuite ''b'' [TestCase ''x'' (1::nat)],
       TestSuite ''2'' [TestCase ''y'' 2],
       TestSuite ''1'' [TestCase ''z'' 3]]) new_runner)) = Inr [3, 2, 1] \<and>
   run (throws_only 10) (final_state (exec (TestPlan ''p''
      [BeforeAll (1::nat), BeforeEach 2, AfterEach 3, AfterAll 4,
       TestSuite ''a'' [BeforeAll 5, BeforeEach 6, AfterEach 7, AfterAll 8,
                        TestCase ''x'' 10, TestCase ''y'' 11],
       TestSuite ''b'' [TestCase ''z'' 12]]) new_runner))
     = Inr [1, 2, 5, 6, 10, 6, 11, 7, 8, 3, 2, 12, 3, 4] \<and>
   run (throws_only 5) (final_state (exec (TestPlan ''p''
      [BeforeAll (1::nat), BeforeEach 2, AfterEach 3, AfterAll 4,
       TestSuite ''a'' [BeforeAll 5, BeforeEach 6, AfterEach 7, AfterAll 8,
                        TestCase ''x'' 10, TestCase ''y'' 11],
       TestSuite ''b'' [TestCase ''z'' 12]]) new_runner))
     = Inl [1, 2, 5]"
  by (simp add: method_defs run_defs key_defs)

section \<open>\<open>testPlan\<close>\<close>

text \<open>
  Claim C2, as the code has it: \<open>testPlan\<close> calls its body on a runner whose plan document
  is the one it found: the suites and the plan-level hooks of earlier plans are still
  there. Only the cursor changes: the suite name is cleared and the plan name set.
\<close>

theorem testPlan_keeps_plan_document:
  "\<exists>t. testPlan n testSuites s = testSuites t \<and> plan t = plan s \<and>
       passed_in_test_suite t = [] \<and> passed_in_test_plan t = n \<and>
       test_plan_in_progress t = test_plan_in_progress s \<and>
       test_suite_in_progress t = test_suite_in_progress s"
  by (rule exI[of _ "s\<lparr>passed_in_test_suite := [], passed_in_test_plan := n\<rparr>"])
     (simp add: testPlan_def Let_def)

text \<open>
  Claim C2 as stated fails: after a plan \<open>p\<close> with a before-all hook and a suite \<open>s\<close>, a
  second plan \<open>q\<close> with an empty body still has the suite and the hook.
\<close>

theorem testPlan_reset_counterexample:
  "map fst (suites (plan (final_state (exec_all
      [TestPlan ''p'' [BeforeAll (1::nat), TestSuite ''s'' []], TestPlan ''q'' []] new_runner)))) = [''s'']
   \<and> before_all_suite_hook (plan (final_state (exec_all
      [TestPlan ''p'' [BeforeAll (1::nat), TestSuite ''s'' []], TestPlan ''q'' []] new_runner))) = Some 1"
  by (simp add: method_defs)

section \<open>\<open>testCase\<close> outside a suite\<close>

text \<open>
  Claim C4, as the code has it: with the cursor's suite name empty and no suite record
  under the empty name, \<open>testCase\<close> throws a \<open>TypeError\<close> and leaves the runner (plan
  document and cursor) as it was.
\<close>

theorem testCase_without_record_raises:
  "passed_in_test_suite s = [] \<Longrightarrow> map_of (suites (plan s)) [] = None \<Longrightarrow>
     testCase n fn s = Inl (TypeError, s)"
  by (simp add: testCase_def)

text \<open>Witness for C4: the new runner.\<close>

theorem testCase_without_record_raises_witness:
  "passed_in_test_suite (new_runner :: nat RhumRunner) = [] \<and>
   map_of (suites (plan (new_runner :: nat RhumRunner))) [] = None \<and>
   testCase ''c'' (1::nat) new_runner = Inl (TypeError, new_runner)"
  using testCase_without_record_raises [of "new_runner :: nat RhumRunner" "''c''" 1]
  by (simp add: new_runner_def empty_plan_def)

text \<open>
  Claim C4 as stated fails: once a suite has been registered under the empty name, a
  \<open>testCase\<close> called in a later plan, outside every suite, with the cursor's suite name
  empty, does not throw and pushes its case onto that record.
\<close>

theorem testCase_empty_scope_counterexample:
  "passed_in_test_suite (final_state (exec_all
      [TestPlan ''p'' [TestSuite [] []], TestPlan ''q'' []] (new_runner :: nat RhumRunner))) = []
   \<and> testFns_of (final_state (exec_all
      [TestPlan ''p'' [TestSuite [] []], TestPlan ''q'' []] (new_runner :: nat RhumRunner))) []
      = Some []
   \<and> \<not> raised (exec_all
      [TestPlan ''p'' [TestSuite [] []], TestPlan ''q'' [TestCase ''c'' (1::nat)]] new_runner)
   \<and> testFns_of (final_state (exec_all
      [TestPlan ''p'' [TestSuite [] []], TestPlan ''q'' [TestCase ''c'' (1::nat)]] new_runner)) []
      = Some [1]"
  by (simp add: method_defs)

section \<open>\<open>testSuite\<close> on a name already registered\<close>

text \<open>
  Claim C5: when the plan document has a record under the name, \<open>testSuite\<close> calls its
  body on a runner in which that record is a fresh one: an empty case list and the four
  hook slots null. The record keeps its place in the map, the other records are
  untouched, and the cursor's suite name is the name.
\<close>

theorem testSuite_replaces_record:
  assumes "map_of (suites (plan s)) n = Some old"
  shows "\<exists>t. testSuite n testCases s = testCases t \<and>
           map_of (suites (plan t)) n = Some fresh_suite \<and>
           cases fresh_suite = Some [] \<and>
           after_all_case_hook fresh_suite = None \<and> after_each_case_hook fresh_suite = None \<and>
           before_all_case_hook fresh_suite = None \<and> before_each_case_hook fresh_suite = None \<and>
           map fst (suites (plan t)) = map fst (suites (plan s)) \<and>
           (\<forall>k. k \<noteq> n \<longrightarrow> map_of (suites (plan t)) k = map_of (suites (plan s)) k) \<and>
           passed_in_test_suite t = n"
proof -
  let ?s1 = "s\<lparr>passed_in_test_suite := n\<rparr>"
  let ?t = "set_suite n fresh_suite ?s1"
  have "map_of (suites (plan ?s1)) n = Some old" using assms by simp
  then have "map fst (suites (plan ?t)) = map fst (suites (plan ?s1))"
    by (rule keys_set_suite_present)
  moreover have "testSuite n testCases s = testCases ?t"
    by (simp add: testSuite_def Let_def)
  ultimately show ?thesis
    by (intro exI[of _ ?t]) (simp add: map_of_set_suite set_suite_cursor fresh_suite_def)
qed

text \<open>
  Witness for C5: suite \<open>s\<close> of plan \<open>p\<close> holds one case and an after-all hook; registering
  \<open>s\<close> again with an empty body leaves a fresh record under \<open>s\<close>.
\<close>

theorem testSuite_replaces_record_witness:
  "testFns_of (final_state (exec_all
      [TestPlan ''p'' [TestSuite ''s'' [TestCase ''c'' (1::nat), AfterAll 2]]] new_runner)) ''s''
      = Some [1]
   \<and> map_of (suites (plan (final_state (exec_all
      [TestPlan ''p'' [TestSuite ''s'' [TestCase ''c'' (1::nat), AfterAll 2]]] new_runner)))) ''s''
      \<noteq> None
   \<and> map_of (suites (plan (final_state (testSuite ''s'' Inr (final_state (exec_all
      [TestPlan ''p'' [TestSuite ''s'' [TestCase ''c'' (1::nat), AfterAll 2]]] new_runner)))))) ''s''
      = Some fresh_suite"
  using testSuite_replaces_record [of "final_state (exec_all
      [TestPlan ''p'' [TestSuite ''s'' [TestCase ''c'' (1::nat), AfterAll 2]]] new_runner)" "''s''" _ Inr]
  by (simp add: method_defs)

section \<open>Hooks registered with no plan\<close>

text \<open>
  Claim C6: with no plan name set, each of the four hook methods returns without
  throwing and leaves the whole runner, plan document and cursor, as it was.
\<close>

theorem hooks_without_plan_do_nothing:
  "passed_in_test_plan s = [] \<Longrightarrow>
     beforeAll cb s = Inr s \<and> beforeEach cb s = Inr s \<and>
     afterEach cb s = Inr s \<and> afterAll cb s = Inr s"
  by (simp add: beforeAll_def beforeEach_def afterEach_def afterAll_def)

text \<open>Witness for C6: the new runner, on which no plan has been opened.\<close>

theorem hooks_without_plan_do_nothing_witness:
  "passed_in_test_plan (new_runner :: nat RhumRunner) = [] \<and>
   beforeAll 7 (new_runner :: nat RhumRunner) = Inr new_runner \<and>
   beforeEach 7 (new_runner :: nat RhumRunner) = Inr new_runner \<and>
   afterEach 7 (new_runner :: nat RhumRunner) = Inr new_runner \<and>
   afterAll 7 (new_runner :: nat RhumRunner) = Inr new_runner"
  using hooks_without_plan_do_nothing [of "new_runner :: nat RhumRunner" 7]
  by (simp add: new_runner_def)

end
